theory Spec2Isabelle
  imports Main "HOL-Library.AList" "HOL-Library.Word"
begin

section \<open>Values, objects and the store\<close>

text \<open>
  The error messages of \<^verbatim>\<open>enum CacheErrors\<close>. A thrown \<^verbatim>\<open>new Error(msg)\<close> is the value
  \<open>Error msg\<close>; the methods that throw return \<open>error + _\<close>, with \<open>Inl\<close> for the throw.
\<close>

datatype CacheErrors = InvalidKeyType | OutOfIndex | InvalidKey

fun message :: "CacheErrors \<Rightarrow> string" where
  "message InvalidKeyType = ''invalid type of key-value to use this method!''"
| "message OutOfIndex = ''out-of array-index''"
| "message InvalidKey = ''invalid-key''"

datatype error = Error string

text \<open>
  A \<^verbatim>\<open>CacheData\<close> value is a primitive (string, number, boolean) or a reference to an
  object of the runtime's heap (Buffer, plain object, Map, Set, array). Numbers are the
  integer-valued ones (\<open>int\<close>). Equality of two \<open>CacheData\<close> values is then what
  JavaScript's \<^verbatim>\<open>===\<close> and SameValueZero compute: primitives by value, objects by
  identity.
\<close>

type_synonym addr = nat
type_synonym timer = nat

datatype CacheData = Str string | Num int | Bool bool | Ref addr

text \<open>
  Maps and Sets keep insertion order, so they are lists. An array is its elements
  together with its other own properties: \<^verbatim>\<open>a[-1] = v\<close> creates the property
  \<^verbatim>\<open>"-1"\<close> and leaves the elements alone.
\<close>

datatype obj =
    BufferObj "8 word list"
  | RecordObj "(string \<times> CacheData) list"
  | MapObj "(string \<times> CacheData) list"
  | SetObj "CacheData list"
  | ArrayObj "CacheData list" "(int \<times> CacheData) list"

record entry =
  ttl :: int
  evalue :: CacheData
  timeout :: "timer option"

text \<open>
  The fields of a \<^verbatim>\<open>LocalCache\<close> instance (\<open>data\<close>, an insertion-ordered Map, and
  \<open>TTL\<close> for \<^verbatim>\<open>_TTL\<close>) with the part of the runtime its methods act on: the object heap
  and the pending timers. A pending timer is its handle, the key its callback deletes and
  its delay in milliseconds. The field \<^verbatim>\<open>value\<close> of an entry is \<open>evalue\<close>, and the
  methods \<^verbatim>\<open>set\<close> and \<^verbatim>\<open>exists\<close> are \<open>set_key\<close> and \<open>exists_key\<close>.
\<close>

record LocalCache =
  data :: "(string \<times> entry) list"
  TTL :: int
  heap :: "addr \<rightharpoonup> obj"
  next_addr :: addr
  timers :: "(timer \<times> string \<times> int) list"
  next_timer :: timer

record CachingOptions =
  optTTL :: "int option"

definition constructor :: "CachingOptions option \<Rightarrow> LocalCache" where
  "constructor options =
     \<lparr>data = [],
      TTL = (case options of None \<Rightarrow> 0
             | Some opts \<Rightarrow> (case optTTL opts of None \<Rightarrow> 0 | Some t \<Rightarrow> t)),
      heap = Map.empty, next_addr = 0, timers = [], next_timer = 0\<rparr>"

subsection \<open>The runtime: allocation and timers\<close>

definition new_obj :: "LocalCache \<Rightarrow> obj \<Rightarrow> addr \<times> LocalCache" where
  "new_obj s ob =
     (next_addr s, s\<lparr>heap := (heap s)(next_addr s \<mapsto> ob), next_addr := Suc (next_addr s)\<rparr>)"

definition setTimeout :: "LocalCache \<Rightarrow> string \<Rightarrow> int \<Rightarrow> timer \<times> LocalCache" where
  "setTimeout s key delay =
     (next_timer s,
      s\<lparr>timers := timers s @ [(next_timer s, key, delay)], next_timer := Suc (next_timer s)\<rparr>)"

definition clearTimeout :: "LocalCache \<Rightarrow> timer option \<Rightarrow> LocalCache" where
  "clearTimeout s t =
     (case t of None \<Rightarrow> s
      | Some h \<Rightarrow> s\<lparr>timers := filter (\<lambda>p. fst p \<noteq> h) (timers s)\<rparr>)"

definition del :: "LocalCache \<Rightarrow> string list \<Rightarrow> LocalCache" where
  "del s keys = fold (\<lambda>key s'. s'\<lparr>data := AList.delete key (data s')\<rparr>) keys s"

text \<open>
  A pending timer fires: it leaves the queue and its callback runs. Both callbacks of the
  source (\<^verbatim>\<open>this.del(key)\<close> in \<^verbatim>\<open>handleTTL\<close>, \<^verbatim>\<open>this.data.delete(key)\<close> in \<^verbatim>\<open>sAdd\<close>)
  delete the key. A handle that is not pending does nothing.
\<close>

definition fire :: "LocalCache \<Rightarrow> timer \<Rightarrow> LocalCache" where
  "fire s h =
     (case map_of (timers s) h of None \<Rightarrow> s
      | Some (key, delay) \<Rightarrow> del (s\<lparr>timers := filter (\<lambda>p. fst p \<noteq> h) (timers s)\<rparr>) [key])"

definition handleTTL :: "LocalCache \<Rightarrow> string \<Rightarrow> int \<Rightarrow> timer option \<times> LocalCache" where
  "handleTTL s key t =
     (if t \<le> 0 then (None, s)
      else (let (h, s') = setTimeout s key (t * 1000) in (Some h, s')))"

subsection \<open>Keyspace operations\<close>

definition set_key :: "LocalCache \<Rightarrow> string \<Rightarrow> CacheData \<Rightarrow> int option \<Rightarrow> LocalCache" where
  "set_key s key v ttl_arg =
     (let t = (case ttl_arg of None \<Rightarrow> TTL s | Some t' \<Rightarrow> t');
          (h, s') = handleTTL s key t
      in s'\<lparr>data := AList.update key \<lparr>ttl = t, evalue = v, timeout = h\<rparr> (data s')\<rparr>)"

definition get :: "LocalCache \<Rightarrow> string \<Rightarrow> CacheData option" where
  "get s key = (case map_of (data s) key of None \<Rightarrow> None | Some d \<Rightarrow> Some (evalue d))"

definition exists_key :: "LocalCache \<Rightarrow> string \<Rightarrow> bool" where
  "exists_key s key = (map_of (data s) key \<noteq> None)"

definition getTTL :: "LocalCache \<Rightarrow> string \<Rightarrow> int" where
  "getTTL s key = (case map_of (data s) key of None \<Rightarrow> - 1 | Some d \<Rightarrow> ttl d)"

definition setTTL :: "LocalCache \<Rightarrow> string \<Rightarrow> int \<Rightarrow> error + LocalCache" where
  "setTTL s key t =
     (case map_of (data s) key of
        None \<Rightarrow> Inl (Error ''Invalid key'')
      | Some d \<Rightarrow>
          (let s1 = clearTimeout s (timeout d);
               (h, s2) = handleTTL s1 key t
           in Inr (s2\<lparr>data := AList.update key (d\<lparr>ttl := t, timeout := h\<rparr>) (data s2)\<rparr>)))"

definition persist :: "LocalCache \<Rightarrow> string \<Rightarrow> error + LocalCache" where
  "persist s key =
     (case map_of (data s) key of
        None \<Rightarrow> Inl (Error ''Invalid key'')
      | Some d \<Rightarrow>
          (let s1 = clearTimeout s (timeout d)
           in Inr (s1\<lparr>data := AList.update key (d\<lparr>ttl := 0\<rparr>) (data s1)\<rparr>)))"

text \<open>
  Addition of numbers is the exact sum rounded to the nearest double, ties to the even
  mantissa: an integer below \<open>2 ^ 53\<close> in magnitude is a double, a larger one keeps its 53
  leading bits. (A sum beyond the largest finite double is an infinity in the source; the
  integers have none, and such a sum is rounded like the others.)
\<close>

function bit_length :: "int \<Rightarrow> nat" where
  "bit_length n = (if n \<le> 0 then 0 else Suc (bit_length (n div 2)))"
  by pat_completeness auto
termination
  by (relation "measure nat") auto

definition to_double :: "int \<Rightarrow> int" where
  "to_double n =
     (let a = \<bar>n\<bar>
      in if a < 2 ^ 53 then n
         else (let e = bit_length a - 53;
                   q = a div 2 ^ e;
                   r = a mod 2 ^ e;
                   q' = (if 2 * r > 2 ^ e \<or> (2 * r = 2 ^ e \<and> odd q) then q + 1 else q)
               in sgn n * q' * 2 ^ e))"

definition incrementBy :: "LocalCache \<Rightarrow> string \<Rightarrow> int \<Rightarrow> error + LocalCache" where
  "incrementBy s key n =
     (case map_of (data s) key of
        None \<Rightarrow> Inl (Error (message InvalidKey))
      | Some d \<Rightarrow>
          (case evalue d of
             Num m \<Rightarrow>
               Inr (s\<lparr>data := AList.update key (d\<lparr>evalue := Num (to_double (m + n))\<rparr>) (data s)\<rparr>)
           | _ \<Rightarrow> Inl (Error (message InvalidKey))))"

definition mSet :: "LocalCache \<Rightarrow> (string \<times> CacheData) list \<Rightarrow> LocalCache" where
  "mSet s object =
     fold (\<lambda>(key, v) s'.
             s'\<lparr>data := AList.update key \<lparr>ttl = 0, evalue = v, timeout = None\<rparr> (data s')\<rparr>)
       object s"

subsection \<open>Hashmap operations\<close>

text \<open>\<^verbatim>\<open>v instanceof Map\<close>, \<^verbatim>\<open>v instanceof Set\<close> and \<^verbatim>\<open>Array.isArray(v)\<close>.\<close>

definition is_Map :: "LocalCache \<Rightarrow> CacheData \<Rightarrow> bool" where
  "is_Map s v =
     (case v of Ref a \<Rightarrow> (case heap s a of Some (MapObj es) \<Rightarrow> True | _ \<Rightarrow> False)
      | _ \<Rightarrow> False)"

definition is_Set :: "LocalCache \<Rightarrow> CacheData \<Rightarrow> bool" where
  "is_Set s v =
     (case v of Ref a \<Rightarrow> (case heap s a of Some (SetObj xs) \<Rightarrow> True | _ \<Rightarrow> False)
      | _ \<Rightarrow> False)"

definition is_Array :: "LocalCache \<Rightarrow> CacheData \<Rightarrow> bool" where
  "is_Array s v =
     (case v of Ref a \<Rightarrow> (case heap s a of Some (ArrayObj xs ps) \<Rightarrow> True | _ \<Rightarrow> False)
      | _ \<Rightarrow> False)"

text \<open>\<^verbatim>\<open>m.set(field, value)\<close> on the Map the value \<open>v\<close> refers to.\<close>

definition map_set :: "CacheData \<Rightarrow> LocalCache \<Rightarrow> string \<Rightarrow> CacheData \<Rightarrow> LocalCache" where
  "map_set v s field x =
     (case v of
        Ref a \<Rightarrow>
          (case heap s a of
             Some (MapObj es) \<Rightarrow> s\<lparr>heap := (heap s)(a \<mapsto> MapObj (AList.update field x es))\<rparr>
           | _ \<Rightarrow> s)
      | _ \<Rightarrow> s)"

text \<open>
  The argument \<open>object\<close> of \<^verbatim>\<open>hSet\<close> and \<^verbatim>\<open>mSet\<close> is given by its
  \<^verbatim>\<open>Object.entries\<close>; the optional \<open>ttl\<close> argument defaults to \<^verbatim>\<open>this._TTL\<close>.
\<close>

definition hSet ::
  "LocalCache \<Rightarrow> string \<Rightarrow> (string \<times> CacheData) list \<Rightarrow> int option \<Rightarrow> LocalCache" where
  "hSet s key object ttl_arg =
     (let t = (case ttl_arg of None \<Rightarrow> TTL s | Some t' \<Rightarrow> t');
          (d, s1) =
            (case map_of (data s) key of
               Some d0 \<Rightarrow>
                 if is_Map s (evalue d0) then (d0, s)
                 else (let (h, s') = handleTTL s key t;
                           (a, s'') = new_obj s' (MapObj []);
                           d' = \<lparr>ttl = t, evalue = Ref a, timeout = h\<rparr>
                       in (d', s''\<lparr>data := AList.update key d' (data s'')\<rparr>))
             | None \<Rightarrow>
                 (let (h, s') = handleTTL s key t;
                      (a, s'') = new_obj s' (MapObj []);
                      d' = \<lparr>ttl = t, evalue = Ref a, timeout = h\<rparr>
                  in (d', s''\<lparr>data := AList.update key d' (data s'')\<rparr>)))
      in fold (\<lambda>(field, x) s'. map_set (evalue d) s' field x) object s1)"

text \<open>
  \<^verbatim>\<open>Object.fromEntries\<close> builds a fresh plain object, returned here as the mapping it
  is: a later entry of the list overrides an earlier one. \<open>None\<close> is \<^verbatim>\<open>null\<close>.
\<close>

definition hGetAll :: "LocalCache \<Rightarrow> string \<Rightarrow> (string \<rightharpoonup> CacheData) option" where
  "hGetAll s key =
     (case map_of (data s) key of
        None \<Rightarrow> None
      | Some d \<Rightarrow>
          (case evalue d of
             Ref a \<Rightarrow> (case heap s a of Some (MapObj es) \<Rightarrow> Some (map_of (rev es)) | _ \<Rightarrow> None)
           | _ \<Rightarrow> None))"

subsection \<open>Set operations\<close>

text \<open>\<^verbatim>\<open>st.add(member)\<close>: a member already in the Set (SameValueZero) is not added again.\<close>

definition insert_member :: "CacheData \<Rightarrow> CacheData list \<Rightarrow> CacheData list" where
  "insert_member member xs = (if member \<in> set xs then xs else xs @ [member])"

definition set_add :: "CacheData \<Rightarrow> LocalCache \<Rightarrow> CacheData \<Rightarrow> LocalCache" where
  "set_add v s member =
     (case v of
        Ref a \<Rightarrow>
          (case heap s a of
             Some (SetObj xs) \<Rightarrow> s\<lparr>heap := (heap s)(a \<mapsto> SetObj (insert_member member xs))\<rparr>
           | _ \<Rightarrow> s)
      | _ \<Rightarrow> s)"

definition sAdd :: "LocalCache \<Rightarrow> string \<Rightarrow> CacheData list \<Rightarrow> LocalCache" where
  "sAdd s key members =
     (let fresh =
            (let (h, s') = (if TTL s > 0
                            then (let (h', s') = setTimeout s key (TTL s * 1000) in (Some h', s'))
                            else (None, s));
                 (a, s'') = new_obj s' (SetObj []);
                 d' = \<lparr>ttl = TTL s, evalue = Ref a, timeout = h\<rparr>
             in (d', s''\<lparr>data := AList.update key d' (data s'')\<rparr>));
          (d, s1) =
            (case map_of (data s) key of
               Some d0 \<Rightarrow> if is_Set s (evalue d0) then (d0, s) else fresh
             | None \<Rightarrow> fresh)
      in fold (\<lambda>member s'. set_add (evalue d) s' member) members s1)"

definition sIsMember :: "LocalCache \<Rightarrow> string \<Rightarrow> CacheData \<Rightarrow> bool" where
  "sIsMember s key member =
     (case map_of (data s) key of
        None \<Rightarrow> False
      | Some d \<Rightarrow>
          (case evalue d of
             Ref a \<Rightarrow> (case heap s a of Some (SetObj xs) \<Rightarrow> member \<in> set xs | _ \<Rightarrow> False)
           | _ \<Rightarrow> False))"

text \<open>
  The slots of the Set a key holds, in insertion order; \<open>None\<close> when the key is absent
  or holds no Set.
\<close>

definition smembers :: "LocalCache \<Rightarrow> string \<Rightarrow> CacheData list option" where
  "smembers s key =
     (case map_of (data s) key of
        None \<Rightarrow> None
      | Some d \<Rightarrow>
          (case evalue d of
             Ref a \<Rightarrow> (case heap s a of Some (SetObj xs) \<Rightarrow> Some xs | _ \<Rightarrow> None)
           | _ \<Rightarrow> None))"

text \<open>
  The deep value comparison of the specification, for comparison with what the Set does:
  two values are deep-equal when they are the same value, or refer to objects of the same
  kind whose contents are deep-equal position by position. References are followed to
  the given depth.
\<close>

primrec deep_equal :: "(addr \<rightharpoonup> obj) \<Rightarrow> nat \<Rightarrow> CacheData \<Rightarrow> CacheData \<Rightarrow> bool" where
  "deep_equal h 0 v w = (v = w)"
| "deep_equal h (Suc n) v w =
     (v = w \<or>
      (case (v, w) of
         (Ref a, Ref b) \<Rightarrow>
           (case (h a, h b) of
              (Some (BufferObj bs), Some (BufferObj cs)) \<Rightarrow> bs = cs
            | (Some (RecordObj es), Some (RecordObj fs)) \<Rightarrow>
                list_all2 (\<lambda>p q. fst p = fst q \<and> deep_equal h n (snd p) (snd q)) es fs
            | (Some (MapObj es), Some (MapObj fs)) \<Rightarrow>
                list_all2 (\<lambda>p q. fst p = fst q \<and> deep_equal h n (snd p) (snd q)) es fs
            | (Some (SetObj xs), Some (SetObj ys)) \<Rightarrow> list_all2 (deep_equal h n) xs ys
            | (Some (ArrayObj xs ps), Some (ArrayObj ys qs)) \<Rightarrow>
                list_all2 (deep_equal h n) xs ys
            | _ \<Rightarrow> False)
       | _ \<Rightarrow> False))"

subsection \<open>List operations\<close>

text \<open>The elements of the array a value refers to; \<open>None\<close> when it is not an array.\<close>

definition elems :: "LocalCache \<Rightarrow> CacheData \<Rightarrow> CacheData list option" where
  "elems s v =
     (case v of Ref a \<Rightarrow> (case heap s a of Some (ArrayObj xs ps) \<Rightarrow> Some xs | _ \<Rightarrow> None)
      | _ \<Rightarrow> None)"

text \<open>An in-place change of the elements of the array \<open>v\<close> refers to.\<close>

definition array_upd ::
  "CacheData \<Rightarrow> (CacheData list \<Rightarrow> CacheData list) \<Rightarrow> LocalCache \<Rightarrow> LocalCache" where
  "array_upd v f s =
     (case v of
        Ref a \<Rightarrow>
          (case heap s a of
             Some (ArrayObj xs ps) \<Rightarrow> s\<lparr>heap := (heap s)(a \<mapsto> ArrayObj (f xs) ps)\<rparr>
           | _ \<Rightarrow> s)
      | _ \<Rightarrow> s)"

definition lPush :: "LocalCache \<Rightarrow> string \<Rightarrow> CacheData list \<Rightarrow> LocalCache" where
  "lPush s key values =
     (let (d, s1) =
            (case map_of (data s) key of
               Some d0 \<Rightarrow> (d0, s)
             | None \<Rightarrow>
                 (let (h, s') = handleTTL s key (TTL s);
                      (a, s'') = new_obj s' (ArrayObj [] [])
                  in (\<lparr>ttl = TTL s, evalue = Ref a, timeout = h\<rparr>, s'')));
          (d2, s2) =
            (if is_Array s1 (evalue d) then (d, s1)
             else (let (a, s') = new_obj s1 (ArrayObj [] []) in (d\<lparr>evalue := Ref a\<rparr>, s')));
          s3 = array_upd (evalue d2) (\<lambda>xs. xs @ values) s2
      in s3\<lparr>data := AList.update key d2 (data s3)\<rparr>)"

definition lPop :: "LocalCache \<Rightarrow> string \<Rightarrow> LocalCache" where
  "lPop s key =
     (case map_of (data s) key of
        None \<Rightarrow> s
      | Some d \<Rightarrow> if is_Array s (evalue d) then array_upd (evalue d) butlast s else s)"

definition lLen :: "LocalCache \<Rightarrow> string \<Rightarrow> error + int" where
  "lLen s key =
     (case map_of (data s) key of
        None \<Rightarrow> Inl (Error (message InvalidKey))
      | Some d \<Rightarrow>
          (case elems s (evalue d) of
             None \<Rightarrow> Inl (Error (message InvalidKeyType))
           | Some xs \<Rightarrow> Inr (int (length xs))))"

text \<open>
  \<^verbatim>\<open>arr[index] = value\<close> after the bound check, so \<open>index \<le> length - 1\<close>: an index from 0
  on replaces that element, a negative one writes the property of that name.
\<close>

definition array_store :: "CacheData \<Rightarrow> int \<Rightarrow> CacheData \<Rightarrow> LocalCache \<Rightarrow> LocalCache" where
  "array_store v i x s =
     (case v of
        Ref a \<Rightarrow>
          (case heap s a of
             Some (ArrayObj xs ps) \<Rightarrow>
               s\<lparr>heap := (heap s)(a \<mapsto>
                    (if 0 \<le> i then ArrayObj (xs[nat i := x]) ps
                     else ArrayObj xs (AList.update i x ps)))\<rparr>
           | _ \<Rightarrow> s)
      | _ \<Rightarrow> s)"

definition lSet :: "LocalCache \<Rightarrow> string \<Rightarrow> int \<Rightarrow> CacheData \<Rightarrow> error + LocalCache" where
  "lSet s key index x =
     (case map_of (data s) key of
        None \<Rightarrow> Inl (Error (message InvalidKey))
      | Some d \<Rightarrow>
          (case elems s (evalue d) of
             None \<Rightarrow> Inl (Error (message InvalidKeyType))
           | Some xs \<Rightarrow>
               if index > int (length xs) - 1 then Inl (Error (message OutOfIndex))
               else (let s1 = array_store (evalue d) index x s
                     in Inr (s1\<lparr>data := AList.update key d (data s1)\<rparr>))))"

text \<open>
  \<^verbatim>\<open>arr.splice(start, 1)\<close>: a negative start counts from the end and stops at 0, a start
  beyond the end is the end; one element is removed if there is one from there on.
\<close>

definition splice1 :: "int \<Rightarrow> CacheData list \<Rightarrow> CacheData list" where
  "splice1 start xs =
     (let len = int (length xs);
          actualStart = (if start < 0 then max (len + start) 0 else min start len);
          deleteCount = min (max 1 0) (len - actualStart)
      in take (nat actualStart) xs @ drop (nat (actualStart + deleteCount)) xs)"

definition lRemIndex :: "LocalCache \<Rightarrow> string \<Rightarrow> int \<Rightarrow> error + LocalCache" where
  "lRemIndex s key index =
     (case map_of (data s) key of
        None \<Rightarrow> Inl (Error (message InvalidKey))
      | Some d \<Rightarrow>
          (case elems s (evalue d) of
             None \<Rightarrow> Inl (Error (message InvalidKeyType))
           | Some xs \<Rightarrow>
               if index > int (length xs) - 1 then Inl (Error (message OutOfIndex))
               else (let s1 = array_upd (evalue d) (splice1 index) s
                     in Inr (s1\<lparr>data := AList.update key d (data s1)\<rparr>))))"

subsection \<open>Scanning keys\<close>

text \<open>
  The characters of the class \<^verbatim>\<open>[.*+?^${}()|\[\]\\]\<close>, which are the syntax characters
  of a regular expression. \<open>CHR 0x5C\<close> is the backslash.
\<close>

definition special :: "char \<Rightarrow> bool" where
  "special c = (c \<in> set (''.*+?^${}()|[]'' @ [CHR 0x5C]))"

text \<open>The first \<^verbatim>\<open>replace\<close>: a backslash before every special character.\<close>

definition escape :: "string \<Rightarrow> string" where
  "escape p = concat (map (\<lambda>c. if special c then [CHR 0x5C, c] else [c]) p)"

text \<open>The second \<^verbatim>\<open>replace\<close>: every backslash-star, from the left, becomes dot-star.\<close>

fun star_to_dotstar :: "string \<Rightarrow> string" where
  "star_to_dotstar (a # b # r) =
     (if a = CHR 0x5C \<and> b = CHR ''*'' then ''.*'' @ star_to_dotstar r
      else a # star_to_dotstar (b # r))"
| "star_to_dotstar r = r"

definition regex_source :: "string \<Rightarrow> string" where
  "regex_source pattern = ''^'' @ star_to_dotstar (escape pattern) @ ''$''"

text \<open>
  \<^verbatim>\<open>new RegExp(source)\<close> for the sources of the shape \<^verbatim>\<open>scan\<close> builds: \<^verbatim>\<open>^\<close>, then
  escaped syntax characters, dot-star and plain characters, then \<^verbatim>\<open>$\<close>. Any other source
  is \<open>None\<close>; lemma \<open>RegExp_regex_source\<close> shows that \<^verbatim>\<open>scan\<close> builds no other.
\<close>

datatype atom = Lit char | AnyStar

fun body :: "string \<Rightarrow> atom list option" where
  "body [] = None"
| "body [c] = (if c = CHR ''$'' then Some [] else None)"
| "body (a # b # r) =
     (if a = CHR 0x5C then (if special b then map_option (Cons (Lit b)) (body r) else None)
      else if a = CHR ''.'' \<and> b = CHR ''*'' then map_option (Cons AnyStar) (body r)
      else if special a then None
      else map_option (Cons (Lit a)) (body (b # r)))"

definition RegExp :: "string \<Rightarrow> atom list option" where
  "RegExp source =
     (case source of [] \<Rightarrow> None | c # r \<Rightarrow> if c = CHR ''^'' then body r else None)"

text \<open>
  Without the \<^verbatim>\<open>s\<close> flag the dot matches any character except a line terminator; of
  these, line feed and carriage return are characters of \<open>char\<close>.
\<close>

definition line_terminator :: "char \<Rightarrow> bool" where
  "line_terminator c = (c = CHR 0x0A \<or> c = CHR 0x0D)"

text \<open>\<^verbatim>\<open>regex.test(key)\<close> for an expression anchored at both ends.\<close>

fun test :: "atom list \<Rightarrow> string \<Rightarrow> bool" where
  "test [] k = (k = [])"
| "test (Lit c # as) k = (case k of [] \<Rightarrow> False | d # k' \<Rightarrow> c = d \<and> test as k')"
| "test (AnyStar # as) k =
     (test as k \<or> (case k of [] \<Rightarrow> False
                    | d # k' \<Rightarrow> \<not> line_terminator d \<and> test (AnyStar # as) k'))"

text \<open>
  The expression a pattern stands for: a star is dot-star, every other character is
  itself. Lemma \<open>RegExp_regex_source\<close> shows that \<^verbatim>\<open>scan\<close> compiles to it.
\<close>

definition atoms_of :: "string \<Rightarrow> atom list" where
  "atoms_of pattern = map (\<lambda>c. if c = CHR ''*'' then AnyStar else Lit c) pattern"

definition scan :: "LocalCache \<Rightarrow> string \<Rightarrow> string list" where
  "scan s pattern =
     (case RegExp (regex_source pattern) of
        None \<Rightarrow> []
      | Some regex \<Rightarrow> filter (test regex) (map fst (data s)))"

text \<open>
  The glob of the specification, for comparison with \<^verbatim>\<open>scan\<close>: a star matches any
  substring, every other character matches itself.
\<close>

fun glob :: "string \<Rightarrow> string \<Rightarrow> bool" where
  "glob [] k = (k = [])"
| "glob (c # p) k =
     (if c = CHR ''*''
      then glob p k \<or> (case k of [] \<Rightarrow> False | d # k' \<Rightarrow> glob (c # p) k')
      else (case k of [] \<Rightarrow> False | d # k' \<Rightarrow> c = d \<and> glob p k'))"

subsection \<open>Example stores\<close>

definition ex_list :: LocalCache where
  "ex_list = lPush (set_key (constructor None) ''k'' (Str ''v'') None) ''list''
               [Num 1, Num 2, Num 3]"

definition ex_default_ttl :: LocalCache where
  "ex_default_ttl = set_key (constructor (Some \<lparr>optTTL = Some 60\<rparr>)) ''k'' (Str ''v'') None"

definition ex_scalar_ttl :: LocalCache where
  "ex_scalar_ttl = set_key (constructor (Some \<lparr>optTTL = Some 60\<rparr>)) ''k'' (Str ''v'') (Some 5)"

definition ex_hash :: LocalCache where
  "ex_hash = hSet (constructor None) ''h'' [(''x'', Num 1)] None"

text \<open>Three arrays \<^verbatim>\<open>[1]\<close> of the host, at references 0, 1 and 2, and an empty store.\<close>

definition ex_arrays :: LocalCache where
  "ex_arrays =
     snd (new_obj (snd (new_obj (snd (new_obj (constructor None) (ArrayObj [Num 1] [])))
                     (ArrayObj [Num 1] []))) (ArrayObj [Num 1] []))"

definition ex_users :: LocalCache where
  "ex_users = set_key (set_key (set_key (constructor None) ''users:1'' (Num 1) None)
                ''users:2'' (Num 2) None) ''admins:1'' (Num 3) None"

text \<open>A store whose only key is \<^verbatim>\<open>"a\nb"\<close>.\<close>

definition ex_newline :: LocalCache where
  "ex_newline = set_key (constructor None) (''a'' @ [CHR 0x0A] @ ''b'') (Num 1) None"

text \<open>\<^verbatim>\<open>set("a", "v1", 1)\<close> on a new store, and then \<^verbatim>\<open>set("a", "v2", 0)\<close>.\<close>

definition ex_armed :: LocalCache where
  "ex_armed = set_key (constructor None) ''a'' (Str ''v1'') (Some 1)"

definition ex_overwritten :: LocalCache where
  "ex_overwritten = set_key ex_armed ''a'' (Str ''v2'') (Some 0)"

section \<open>Basic facts\<close>

lemma elems_SomeD:
  "elems s v = Some xs \<Longrightarrow> \<exists>a ps. v = Ref a \<and> heap s a = Some (ArrayObj xs ps)"
  by (cases v) (auto simp: elems_def split: option.splits obj.splits)

lemma elems_None_iff: "elems s v = None \<longleftrightarrow> \<not> is_Array s v"
  by (cases v) (auto simp: elems_def is_Array_def split: option.splits obj.splits)

lemma elems_data_update [simp]: "elems (s\<lparr>data := al\<rparr>) v = elems s v"
  by (cases v) (simp_all add: elems_def)

lemma handleTTL_cases:
  "handleTTL s key t =
     (if t \<le> 0 then (None, s)
      else (Some (next_timer s),
            s\<lparr>timers := timers s @ [(next_timer s, key, t * 1000)],
              next_timer := Suc (next_timer s)\<rparr>))"
  by (simp add: handleTTL_def setTimeout_def)

lemmas run_defs =
  constructor_def set_key_def handleTTL_cases new_obj_def clearTimeout_def del_def fire_def
  get_def getTTL_def setTTL_def persist_def incrementBy_def mSet_def hSet_def hGetAll_def map_set_def
  is_Map_def is_Set_def is_Array_def insert_member_def set_add_def smembers_def sAdd_def sIsMember_def elems_def
  array_upd_def lPush_def lPop_def lLen_def array_store_def lSet_def splice1_def
  lRemIndex_def setTimeout_def Let_def

section \<open>Bulk set\<close>

lemma mSet_Nil: "mSet s [] = s"
  by (simp add: mSet_def)

lemma mSet_Cons:
  "mSet s (p # object) =
     mSet (s\<lparr>data := AList.update (fst p) \<lparr>ttl = 0, evalue = snd p, timeout = None\<rparr> (data s)\<rparr>)
       object"
  by (simp add: mSet_def split: prod.splits)

lemma mSet_lookup:
  "map_of (data (mSet s object)) k =
     (case map_of (rev object) k of None \<Rightarrow> map_of (data s) k
      | Some v \<Rightarrow> Some \<lparr>ttl = 0, evalue = v, timeout = None\<rparr>)"
proof (induction object arbitrary: s)
  case Nil
  show ?case by (simp add: mSet_Nil)
next
  case (Cons p object)
  show ?case
    by (cases p) (simp add: mSet_Cons Cons.IH update_conv' map_add_def split: option.splits)
qed

lemma mSet_frame:
  "timers (mSet s object) = timers s \<and> next_timer (mSet s object) = next_timer s
   \<and> TTL (mSet s object) = TTL s \<and> heap (mSet s object) = heap s"
  by (induction object arbitrary: s) (simp_all add: mSet_Nil mSet_Cons)

text \<open>
  What holds of \<^verbatim>\<open>mSet(object)\<close>: every pair of the object (whose keys are distinct,
  being the keys of an object) is stored as an entry with ttl 0 and no timeout handle, and
  no timer is armed, whatever the default ttl of the store is; \<^verbatim>\<open>getTTL\<close> of such a key
  is 0 right after the call. The timers pending before the call all stay pending.
\<close>

lemma mSet_ttl_zero:
  assumes "distinct (map fst object)" and "(k, v) \<in> set object"
  shows "map_of (data (mSet s object)) k = Some \<lparr>ttl = 0, evalue = v, timeout = None\<rparr>
         \<and> getTTL (mSet s object) k = 0
         \<and> timers (mSet s object) = timers s"
proof -
  from assms have "map_of (rev object) k = Some v"
    by (intro map_of_is_SomeI) (simp_all add: distinct_rev rev_map [symmetric])
  then have "map_of (data (mSet s object)) k = Some \<lparr>ttl = 0, evalue = v, timeout = None\<rparr>"
    by (simp add: mSet_lookup)
  then show ?thesis by (simp add: getTTL_def mSet_frame)
qed

lemma mSet_ttl_zero_example:
  "TTL ex_default_ttl = 60
   \<and> getTTL (mSet ex_default_ttl [(''a'', Num 1), (''b'', Num 2)]) ''a'' = 0
   \<and> getTTL (mSet ex_default_ttl [(''a'', Num 1), (''k'', Num 2)]) ''k'' = 0
   \<and> getTTL ex_default_ttl ''k'' = 60"
  using mSet_ttl_zero [of "[(''a'', Num 1), (''b'', Num 2)]" "''a''" "Num 1" ex_default_ttl]
    mSet_ttl_zero [of "[(''a'', Num 1), (''k'', Num 2)]" "''k''" "Num 2" ex_default_ttl]
  by (simp add: ex_default_ttl_def run_defs)

text \<open>
  C3 fails on a key that has a pending timer. The store has default ttl 60 and
  \<^verbatim>\<open>set("k", "v")\<close> has armed timer 0 for \<^verbatim>\<open>"k"\<close>. After \<^verbatim>\<open>mSet({k: "v2"})\<close> the entry
  has ttl 0 and no handle and \<^verbatim>\<open>getTTL("k")\<close> is 0, but timer 0 is still pending: the key
  has a scheduled expiration, and once the timer has fired the key is gone and
  \<^verbatim>\<open>getTTL("k")\<close> is -1.
\<close>

theorem mSet_leaves_stale_timer:
  "TTL ex_default_ttl = 60
   \<and> timers ex_default_ttl = [(0, ''k'', 60000)]
   \<and> map_of (data (mSet ex_default_ttl [(''k'', Str ''v2'')])) ''k''
       = Some \<lparr>ttl = 0, evalue = Str ''v2'', timeout = None\<rparr>
   \<and> getTTL (mSet ex_default_ttl [(''k'', Str ''v2'')]) ''k'' = 0
   \<and> timers (mSet ex_default_ttl [(''k'', Str ''v2'')]) = [(0, ''k'', 60000)]
   \<and> get (fire (mSet ex_default_ttl [(''k'', Str ''v2'')]) 0) ''k'' = None
   \<and> getTTL (fire (mSet ex_default_ttl [(''k'', Str ''v2'')]) 0) ''k'' = - 1"
  by (simp add: ex_default_ttl_def run_defs)

section \<open>List operations\<close>

text \<open>
  C6. \<^verbatim>\<open>lPop\<close> has no throwing branch (its result is a store, not an error or a
  store). On an absent key and on a key whose value is not an array it returns the store
  as it is; on an array it drops the last element in place and changes nothing else.
\<close>

theorem lPop_lenient:
  "(map_of (data s) k = None \<longrightarrow> lPop s k = s)
   \<and> (map_of (data s) k = Some d \<and> \<not> is_Array s (evalue d) \<longrightarrow> lPop s k = s)
   \<and> (map_of (data s) k = Some d \<and> evalue d = Ref a \<and> heap s a = Some (ArrayObj xs ps)
       \<longrightarrow> lPop s k = s\<lparr>heap := (heap s)(a \<mapsto> ArrayObj (butlast xs) ps)\<rparr>)"
  by (simp add: lPop_def is_Array_def array_upd_def)

theorem lPop_lenient_witness:
  "lPop ex_list ''missing'' = ex_list
   \<and> get ex_list ''k'' = Some (Str ''v'') \<and> lPop ex_list ''k'' = ex_list
   \<and> get ex_list ''list'' = Some (Ref 0)
   \<and> elems ex_list (Ref 0) = Some [Num 1, Num 2, Num 3]
   \<and> elems (lPop ex_list ''list'') (Ref 0) = Some [Num 1, Num 2]"
  using lPop_lenient [where s = ex_list and k = "''missing''"]
    lPop_lenient [where s = ex_list and k = "''k''"
      and d = "\<lparr>ttl = 0, evalue = Str ''v'', timeout = None\<rparr>"]
    lPop_lenient [where s = ex_list and k = "''list''" and a = 0
      and d = "\<lparr>ttl = 0, evalue = Ref 0, timeout = None\<rparr>"
      and xs = "[Num 1, Num 2, Num 3]" and ps = "[]"]
  by (simp add: ex_list_def run_defs)

lemma lSet_out_of_index:
  "map_of (data s) k = Some d \<Longrightarrow> elems s (evalue d) = Some xs
   \<Longrightarrow> (lSet s k i x = Inl (Error (message OutOfIndex)) \<longleftrightarrow> i > int (length xs) - 1)"
  by (simp add: lSet_def Let_def)

lemma array_store_elems:
  "heap s a = Some (ArrayObj xs ps) \<Longrightarrow>
   elems (array_store (Ref a) i x s) (Ref a) = Some (if 0 \<le> i then xs[nat i := x] else xs)"
  by (simp add: array_store_def elems_def)

lemma lSet_ok:
  assumes "map_of (data s) k = Some d" and "elems s (evalue d) = Some xs"
    and "i \<le> int (length xs) - 1"
  shows "\<exists>s'. lSet s k i x = Inr s'
           \<and> elems s' (evalue d) = Some (if 0 \<le> i then xs[nat i := x] else xs)"
proof -
  from elems_SomeD [OF assms(2)] obtain a ps
    where a: "evalue d = Ref a" and h: "heap s a = Some (ArrayObj xs ps)" by blast
  have "lSet s k i x =
          Inr ((array_store (Ref a) i x s)
                 \<lparr>data := AList.update k d (data (array_store (Ref a) i x s))\<rparr>)"
    using assms a by (simp add: lSet_def Let_def)
  then show ?thesis using array_store_elems [OF h, of i x] a by simp
qed

text \<open>
  C5. \<^verbatim>\<open>lSet\<close> throws \<^verbatim>\<open>InvalidKey\<close> on an absent key and \<^verbatim>\<open>InvalidKeyType\<close> on a
  value that is not an array. On a list of length \<open>n\<close> it throws \<^verbatim>\<open>OutOfIndex\<close> exactly
  when \<open>index > n - 1\<close>: it throws at \<open>n\<close>, succeeds at \<open>n - 1\<close> (storing the value
  there), and succeeds at every negative index, leaving the elements as they are.
\<close>

theorem lSet_errors:
  "(map_of (data s) k = None \<longrightarrow> lSet s k i x = Inl (Error (message InvalidKey)))
   \<and> (map_of (data s) k = Some d \<and> \<not> is_Array s (evalue d)
        \<longrightarrow> lSet s k i x = Inl (Error (message InvalidKeyType)))
   \<and> (map_of (data s) k = Some d \<and> elems s (evalue d) = Some xs
        \<longrightarrow> (lSet s k i x = Inl (Error (message OutOfIndex)) \<longleftrightarrow> i > int (length xs) - 1)
          \<and> lSet s k (int (length xs)) x = Inl (Error (message OutOfIndex))
          \<and> (xs \<noteq> [] \<longrightarrow> (\<exists>s'. lSet s k (int (length xs) - 1) x = Inr s'
                 \<and> elems s' (evalue d) = Some (xs[length xs - 1 := x])))
          \<and> (i < 0 \<longrightarrow> (\<exists>s'. lSet s k i x = Inr s' \<and> elems s' (evalue d) = Some xs)))"
proof (intro conjI impI; (elim conjE)?)
  show "map_of (data s) k = None \<Longrightarrow> lSet s k i x = Inl (Error (message InvalidKey))"
    by (simp add: lSet_def)
next
  assume "map_of (data s) k = Some d" and "\<not> is_Array s (evalue d)"
  then show "lSet s k i x = Inl (Error (message InvalidKeyType))"
    by (simp add: lSet_def elems_None_iff [symmetric])
next
  assume h: "map_of (data s) k = Some d" "elems s (evalue d) = Some xs"
  show "lSet s k i x = Inl (Error (message OutOfIndex)) \<longleftrightarrow> i > int (length xs) - 1"
    by (rule lSet_out_of_index [OF h])
  show "lSet s k (int (length xs)) x = Inl (Error (message OutOfIndex))"
    using lSet_out_of_index [OF h, of "int (length xs)" x] by simp
  show "\<exists>s'. lSet s k (int (length xs) - 1) x = Inr s'
          \<and> elems s' (evalue d) = Some (xs[length xs - 1 := x])" if "xs \<noteq> []"
  proof -
    from that have "0 \<le> int (length xs) - 1" by (cases xs) simp_all
    with lSet_ok [OF h, of "int (length xs) - 1" x] show ?thesis
      by (simp add: nat_diff_distrib')
  qed
  show "\<exists>s'. lSet s k i x = Inr s' \<and> elems s' (evalue d) = Some xs" if "i < 0"
    using lSet_ok [OF h, of i x] that by simp
qed

theorem lSet_errors_witness:
  "lSet ex_list ''missing'' 0 (Num 9) = Inl (Error ''invalid-key'')
   \<and> lSet ex_list ''k'' 0 (Num 9) = Inl (Error ''invalid type of key-value to use this method!'')
   \<and> lLen ex_list ''list'' = Inr 3
   \<and> lSet ex_list ''list'' 3 (Num 9) = Inl (Error ''out-of array-index'')
   \<and> (\<exists>s'. lSet ex_list ''list'' 2 (Num 9) = Inr s'
        \<and> elems s' (Ref 0) = Some [Num 1, Num 2, Num 9])
   \<and> (\<exists>s'. lSet ex_list ''list'' (- 1) (Num 9) = Inr s'
        \<and> elems s' (Ref 0) = Some [Num 1, Num 2, Num 3])"
  using lSet_errors [where s = ex_list and k = "''missing''" and i = 0 and x = "Num 9"]
    lSet_errors [where s = ex_list and k = "''k''" and i = 0 and x = "Num 9"
      and d = "\<lparr>ttl = 0, evalue = Str ''v'', timeout = None\<rparr>"]
    lSet_errors [where s = ex_list and k = "''list''" and i = "- 1" and x = "Num 9"
      and d = "\<lparr>ttl = 0, evalue = Ref 0, timeout = None\<rparr>" and xs = "[Num 1, Num 2, Num 3]"]
  by (simp add: ex_list_def run_defs)

lemma splice1_negative:
  assumes "1 \<le> length xs" and "i < 0"
  shows "splice1 i xs =
           (if - int (length xs) \<le> i
            then take (nat (int (length xs) + i)) xs @ drop (Suc (nat (int (length xs) + i))) xs
            else tl xs)"
proof (cases "- int (length xs) \<le> i")
  case True
  with assms have "nat (int (length xs) + i + 1) = Suc (nat (int (length xs) + i))"
    by linarith
  moreover from True assms have "min 1 (int (length xs) - (int (length xs) + i)) = 1"
    by linarith
  ultimately show ?thesis using True assms by (simp add: splice1_def Let_def max_def)
next
  case False
  with assms have "min 1 (int (length xs)) = 1" by linarith
  then show ?thesis using False assms by (simp add: splice1_def Let_def max_def drop_Suc)
qed

text \<open>
  C10. On a list of length \<open>n \<ge> 1\<close> and a negative index \<open>i\<close>, \<^verbatim>\<open>lRemIndex\<close> does not
  throw: for \<open>- n \<le> i\<close> it removes the element at position \<open>n + i\<close> and keeps the others
  in order, for \<open>i < - n\<close> it removes the first element. Nothing else of the store changes.
\<close>

theorem lRemIndex_negative:
  assumes "map_of (data s) k = Some d" and "evalue d = Ref a"
    and "heap s a = Some (ArrayObj xs ps)" and "1 \<le> length xs" and "i < 0"
  shows "lRemIndex s k i =
           Inr (s\<lparr>heap := (heap s)(a \<mapsto> ArrayObj
                  (if - int (length xs) \<le> i
                   then take (nat (int (length xs) + i)) xs
                        @ drop (Suc (nat (int (length xs) + i))) xs
                   else tl xs) ps)\<rparr>)"
proof -
  have e: "elems s (evalue d) = Some xs" using assms(2,3) by (simp add: elems_def)
  have u: "AList.update k d (data s) = data s" using assms(1) by (rule update_triv)
  have "lRemIndex s k i =
          Inr ((array_upd (Ref a) (splice1 i) s)\<lparr>data := AList.update k d (data s)\<rparr>)"
    using assms(1,2,5) e by (simp add: lRemIndex_def Let_def array_upd_def assms(3))
  then show ?thesis
    using u assms(3) by (simp add: array_upd_def splice1_negative [OF assms(4,5)])
qed

theorem lRemIndex_negative_witness:
  "(\<exists>s'. lRemIndex ex_list ''list'' (- 1) = Inr s' \<and> elems s' (Ref 0) = Some [Num 1, Num 2])
   \<and> (\<exists>s'. lRemIndex ex_list ''list'' (- 3) = Inr s' \<and> elems s' (Ref 0) = Some [Num 2, Num 3])
   \<and> (\<exists>s'. lRemIndex ex_list ''list'' (- 7) = Inr s' \<and> elems s' (Ref 0) = Some [Num 2, Num 3])"
  using lRemIndex_negative [where s = ex_list and k = "''list''" and a = 0 and i = "- 1"
      and d = "\<lparr>ttl = 0, evalue = Ref 0, timeout = None\<rparr>"
      and xs = "[Num 1, Num 2, Num 3]" and ps = "[]"]
    lRemIndex_negative [where s = ex_list and k = "''list''" and a = 0 and i = "- 3"
      and d = "\<lparr>ttl = 0, evalue = Ref 0, timeout = None\<rparr>"
      and xs = "[Num 1, Num 2, Num 3]" and ps = "[]"]
    lRemIndex_negative [where s = ex_list and k = "''list''" and a = 0 and i = "- 7"
      and d = "\<lparr>ttl = 0, evalue = Ref 0, timeout = None\<rparr>"
      and xs = "[Num 1, Num 2, Num 3]" and ps = "[]"]
  by (simp add: ex_list_def run_defs)

text \<open>
  C9. \<^verbatim>\<open>lPush\<close> on a key whose value is not an array puts a new array holding the pushed
  values in the entry and keeps the entry's ttl and timeout handle; no timer is armed or
  cancelled. On an absent key the new entry has the default ttl and the handle that
  \<^verbatim>\<open>handleTTL\<close> returns for it: a newly armed timer when the default ttl is positive, none
  otherwise.
\<close>

theorem lPush_keeps_ttl:
  "(map_of (data s) k = Some d \<and> \<not> is_Array s (evalue d) \<longrightarrow>
      map_of (data (lPush s k vs)) k = Some (d\<lparr>evalue := Ref (next_addr s)\<rparr>)
      \<and> elems (lPush s k vs) (Ref (next_addr s)) = Some vs
      \<and> timers (lPush s k vs) = timers s
      \<and> next_timer (lPush s k vs) = next_timer s)
   \<and> (map_of (data s) k = None \<longrightarrow>
      map_of (data (lPush s k vs)) k =
        Some \<lparr>ttl = TTL s, evalue = Ref (next_addr s),
              timeout = (if TTL s \<le> 0 then None else Some (next_timer s))\<rparr>
      \<and> elems (lPush s k vs) (Ref (next_addr s)) = Some vs
      \<and> timers (lPush s k vs) =
          (if TTL s \<le> 0 then timers s else timers s @ [(next_timer s, k, TTL s * 1000)]))"
  by (simp add: lPush_def handleTTL_cases new_obj_def is_Array_def array_upd_def elems_def
      update_conv')

theorem lPush_keeps_ttl_witness:
  "TTL ex_scalar_ttl = 60
   \<and> map_of (data ex_scalar_ttl) ''k'' = Some \<lparr>ttl = 5, evalue = Str ''v'', timeout = Some 0\<rparr>
   \<and> map_of (data (lPush ex_scalar_ttl ''k'' [Num 4])) ''k''
       = Some \<lparr>ttl = 5, evalue = Ref 0, timeout = Some 0\<rparr>
   \<and> timers (lPush ex_scalar_ttl ''k'' [Num 4]) = [(0, ''k'', 5000)]
   \<and> map_of (data (lPush ex_scalar_ttl ''new'' [Num 4])) ''new''
       = Some \<lparr>ttl = 60, evalue = Ref 0, timeout = Some 1\<rparr>
   \<and> timers (lPush ex_scalar_ttl ''new'' [Num 4]) = [(0, ''k'', 5000), (1, ''new'', 60000)]"
  using lPush_keeps_ttl [where s = ex_scalar_ttl and k = "''k''" and vs = "[Num 4]"
      and d = "\<lparr>ttl = 5, evalue = Str ''v'', timeout = Some 0\<rparr>"]
    lPush_keeps_ttl [where s = ex_scalar_ttl and k = "''new''" and vs = "[Num 4]"]
  by (simp add: ex_scalar_ttl_def run_defs)

section \<open>Hashmaps\<close>

lemma distinct_map_of_rev: "distinct (map fst es) \<Longrightarrow> map_of (rev es) = map_of es"
proof (induction es)
  case Nil
  show ?case by simp
next
  case (Cons p es)
  then have "fst p \<notin> dom (map_of es)" by (simp add: dom_map_of_conv_image_fst)
  then have "map_of es (fst p) = None" by blast
  with Cons show ?case
    by (cases p) (auto simp: map_add_def fun_eq_iff split: option.splits)
qed

lemma fold_update_distinct:
  "distinct (map fst es) \<Longrightarrow> distinct (map fst (fold (\<lambda>(f, x). AList.update f x) object es))"
  by (induction object arbitrary: es) (auto simp: distinct_update)

lemma map_of_fold_update:
  "map_of (fold (\<lambda>(f, x). AList.update f x) object es) = map_of es ++ map_of (rev object)"
proof (induction object arbitrary: es)
  case Nil
  show ?case by simp
next
  case (Cons p object)
  show ?case
    by (cases p) (simp add: Cons.IH update_conv' fun_eq_iff map_add_def split: option.splits)
qed

lemma fold_map_set:
  "heap s a = Some (MapObj es) \<Longrightarrow>
   fold (\<lambda>(f, x) s'. map_set (Ref a) s' f x) object s =
     s\<lparr>heap := (heap s)(a \<mapsto> MapObj (fold (\<lambda>(f, x). AList.update f x) object es))\<rparr>"
proof (induction object arbitrary: s es)
  case Nil
  then have "(heap s)(a \<mapsto> MapObj es) = heap s" by (rule map_upd_triv)
  then show ?case by simp
next
  case (Cons p object)
  obtain f x where p: "p = (f, x)" by (cases p)
  let ?s = "s\<lparr>heap := (heap s)(a \<mapsto> MapObj (AList.update f x es))\<rparr>"
  let ?F = "fold (\<lambda>(f, x). AList.update f x) object (AList.update f x es)"
  have 1: "map_set (Ref a) s f x = ?s" using Cons.prems by (simp add: map_set_def)
  have "heap ?s a = Some (MapObj (AList.update f x es))" by simp
  then have 2: "fold (\<lambda>(f, x) s'. map_set (Ref a) s' f x) object ?s =
                  ?s\<lparr>heap := (heap ?s)(a \<mapsto> MapObj ?F)\<rparr>"
    by (rule Cons.IH)
  have 3: "?s\<lparr>heap := (heap ?s)(a \<mapsto> MapObj ?F)\<rparr> = s\<lparr>heap := (heap s)(a \<mapsto> MapObj ?F)\<rparr>"
    by simp
  show ?case unfolding p fold_Cons comp_apply prod.case 1 2 3 ..
qed

lemma hSet_fresh:
  assumes "map_of (data s) k = None \<or> (map_of (data s) k = Some d \<and> \<not> is_Map s (evalue d))"
  shows "hSet s k object ttl_arg =
     (let t = (case ttl_arg of None \<Rightarrow> TTL s | Some t' \<Rightarrow> t');
          (h, s') = handleTTL s k t
      in s'\<lparr>heap := (heap s)(next_addr s \<mapsto> MapObj (fold (\<lambda>(f, x). AList.update f x) object [])),
            next_addr := Suc (next_addr s),
            data := AList.update k \<lparr>ttl = t, evalue = Ref (next_addr s), timeout = h\<rparr> (data s)\<rparr>)"
proof -
  define t where "t = (case ttl_arg of None \<Rightarrow> TTL s | Some t' \<Rightarrow> t')"
  obtain h s' where hs: "handleTTL s k t = (h, s')" by (cases "handleTTL s k t")
  then have fr: "heap s' = heap s" "next_addr s' = next_addr s" "data s' = data s"
    by (auto simp: handleTTL_cases split: if_splits)
  let ?d = "\<lparr>ttl = t, evalue = Ref (next_addr s), timeout = h\<rparr>"
  let ?s1 = "s'\<lparr>heap := (heap s')(next_addr s' \<mapsto> MapObj []), next_addr := Suc (next_addr s'),
                data := AList.update k ?d (data s')\<rparr>"
  have "hSet s k object ttl_arg = fold (\<lambda>(f, x) s'. map_set (Ref (next_addr s)) s' f x) object ?s1"
    using assms hs fr by (auto simp: hSet_def Let_def new_obj_def t_def [symmetric])
  also have "\<dots> = ?s1\<lparr>heap := (heap ?s1)(next_addr s \<mapsto> MapObj (fold (\<lambda>(f, x). AList.update f x) object []))\<rparr>"
    by (rule fold_map_set) (simp add: fr)
  finally show ?thesis using hs fr by (simp add: Let_def t_def [symmetric])
qed

lemma hSet_existing:
  assumes "map_of (data s) k = Some d" and "evalue d = Ref a" and "heap s a = Some (MapObj es)"
  shows "hSet s k object ttl_arg =
           s\<lparr>heap := (heap s)(a \<mapsto> MapObj (fold (\<lambda>(f, x). AList.update f x) object es))\<rparr>"
proof -
  have "is_Map s (evalue d)" using assms by (simp add: is_Map_def)
  then have "hSet s k object ttl_arg = fold (\<lambda>(f, x) s'. map_set (Ref a) s' f x) object s"
    using assms by (simp add: hSet_def Let_def)
  then show ?thesis by (simp add: fold_map_set [OF assms(3)])
qed


text \<open>
  C4. On an absent key and on a value that is not a Map, \<^verbatim>\<open>hSet\<close> installs a new entry
  with the given ttl (the default one when omitted), the handle \<^verbatim>\<open>handleTTL\<close> returns for
  it and a new Map holding exactly the given fields. On a Map it changes neither the entry
  nor the timers and merges: the fields named in the object are overwritten, the others
  are kept. So \<^verbatim>\<open>hSet("h", {x:1})\<close>, \<^verbatim>\<open>hSet("h", {y:2})\<close> on a new store give
  \<^verbatim>\<open>hGetAll("h") = {x:1, y:2}\<close>.
\<close>

theorem hSet_merge:
  "((map_of (data s) k = None \<or> (map_of (data s) k = Some d \<and> \<not> is_Map s (evalue d))) \<longrightarrow>
      hGetAll (hSet s k object ttl_arg) k = Some (map_of (rev object))
      \<and> map_of (data (hSet s k object ttl_arg)) k =
          Some \<lparr>ttl = (case ttl_arg of None \<Rightarrow> TTL s | Some t \<Rightarrow> t), evalue = Ref (next_addr s),
                timeout = fst (handleTTL s k (case ttl_arg of None \<Rightarrow> TTL s | Some t \<Rightarrow> t))\<rparr>
      \<and> timers (hSet s k object ttl_arg) =
          timers (snd (handleTTL s k (case ttl_arg of None \<Rightarrow> TTL s | Some t \<Rightarrow> t))))
   \<and> (map_of (data s) k = Some d \<and> evalue d = Ref a \<and> heap s a = Some (MapObj es)
       \<and> distinct (map fst es) \<longrightarrow>
      hGetAll s k = Some (map_of es)
      \<and> hGetAll (hSet s k object ttl_arg) k = Some (map_of es ++ map_of (rev object))
      \<and> map_of (data (hSet s k object ttl_arg)) k = Some d
      \<and> timers (hSet s k object ttl_arg) = timers s)
   \<and> hGetAll (hSet (hSet (constructor None) ''h'' [(''x'', Num 1)] None) ''h'' [(''y'', Num 2)] None)
        ''h'' = Some [''x'' \<mapsto> Num 1, ''y'' \<mapsto> Num 2]"
proof (intro conjI impI; (elim conjE)?)
  assume a: "map_of (data s) k = None \<or> (map_of (data s) k = Some d \<and> \<not> is_Map s (evalue d))"
  define t where "t = (case ttl_arg of None \<Rightarrow> TTL s | Some t \<Rightarrow> t)"
  have m: "map_of (rev (fold (\<lambda>(f, x). AList.update f x) object [])) = map_of (rev object)"
    using fold_update_distinct [of "[]" object] map_of_fold_update [of object "[]"]
    by (simp add: distinct_map_of_rev)
  note e = hSet_fresh [OF a, of object ttl_arg, folded t_def]
  show "hGetAll (hSet s k object ttl_arg) k = Some (map_of (rev object))"
    by (simp add: e hGetAll_def handleTTL_cases update_conv' m)
  show "map_of (data (hSet s k object ttl_arg)) k =
          Some \<lparr>ttl = t, evalue = Ref (next_addr s), timeout = fst (handleTTL s k t)\<rparr>"
    by (simp add: e handleTTL_cases update_conv')
  show "timers (hSet s k object ttl_arg) = timers (snd (handleTTL s k t))"
    by (simp add: e handleTTL_cases)
next
  assume h: "map_of (data s) k = Some d" "evalue d = Ref a" "heap s a = Some (MapObj es)"
    and d: "distinct (map fst es)"
  have m: "map_of (rev (fold (\<lambda>(f, x). AList.update f x) object es)) = map_of es ++ map_of (rev object)"
    using fold_update_distinct [OF d, of object] map_of_fold_update [of object es]
    by (simp add: distinct_map_of_rev)
  note e = hSet_existing [OF h, of object ttl_arg]
  show "hGetAll s k = Some (map_of es)"
    using h d by (simp add: hGetAll_def distinct_map_of_rev)
  show "hGetAll (hSet s k object ttl_arg) k = Some (map_of es ++ map_of (rev object))"
    using h by (simp add: e hGetAll_def m)
  show "map_of (data (hSet s k object ttl_arg)) k = Some d"
    using h by (simp add: e)
  show "timers (hSet s k object ttl_arg) = timers s"
    by (simp add: e)
next
  show "hGetAll (hSet (hSet (constructor None) ''h'' [(''x'', Num 1)] None) ''h'' [(''y'', Num 2)] None)
        ''h'' = Some [''x'' \<mapsto> Num 1, ''y'' \<mapsto> Num 2]"
    by (simp add: run_defs)
qed

theorem hSet_merge_witness:
  "hGetAll (constructor None) ''h'' = None
   \<and> hGetAll ex_hash ''h'' = Some [''x'' \<mapsto> Num 1]
   \<and> hGetAll (hSet ex_hash ''h'' [(''y'', Num 2)] None) ''h'' = Some [''x'' \<mapsto> Num 1, ''y'' \<mapsto> Num 2]
   \<and> hGetAll (hSet ex_hash ''h'' [(''x'', Num 3)] None) ''h'' = Some [''x'' \<mapsto> Num 3]
   \<and> get ex_list ''k'' = Some (Str ''v'')
   \<and> hGetAll (hSet ex_list ''k'' [(''y'', Num 2)] (Some 5)) ''k'' = Some [''y'' \<mapsto> Num 2]
   \<and> map_of (data (hSet ex_list ''k'' [(''y'', Num 2)] (Some 5))) ''k''
       = Some \<lparr>ttl = 5, evalue = Ref 1, timeout = Some 0\<rparr>
   \<and> timers (hSet ex_list ''k'' [(''y'', Num 2)] (Some 5)) = [(0, ''k'', 5000)]"
  using hSet_merge [where s = "constructor None" and k = "''h''" and object = "[(''x'', Num 1)]"
      and ttl_arg = None]
    hSet_merge [where s = ex_hash and k = "''h''" and object = "[(''y'', Num 2)]"
      and ttl_arg = None and d = "\<lparr>ttl = 0, evalue = Ref 0, timeout = None\<rparr>" and a = 0
      and es = "[(''x'', Num 1)]"]
    hSet_merge [where s = ex_hash and k = "''h''" and object = "[(''x'', Num 3)]"
      and ttl_arg = None and d = "\<lparr>ttl = 0, evalue = Ref 0, timeout = None\<rparr>" and a = 0
      and es = "[(''x'', Num 1)]"]
    hSet_merge [where s = ex_list and k = "''k''" and object = "[(''y'', Num 2)]"
      and ttl_arg = "Some 5" and d = "\<lparr>ttl = 0, evalue = Str ''v'', timeout = None\<rparr>"]
  by (simp add: ex_hash_def ex_list_def run_defs)

section \<open>Sets\<close>

lemma set_fold_insert_member:
  "set (fold insert_member ms xs) = set xs \<union> set ms"
  by (induction ms arbitrary: xs) (auto simp: insert_member_def)

lemma distinct_fold_insert_member:
  "distinct xs \<Longrightarrow> distinct (fold insert_member ms xs)"
  by (induction ms arbitrary: xs) (auto simp: insert_member_def)

lemma fold_set_add:
  "heap s a = Some (SetObj xs) \<Longrightarrow>
   fold (\<lambda>member s'. set_add (Ref a) s' member) ms s =
     s\<lparr>heap := (heap s)(a \<mapsto> SetObj (fold insert_member ms xs))\<rparr>"
proof (induction ms arbitrary: s xs)
  case Nil
  then have "(heap s)(a \<mapsto> SetObj xs) = heap s" by (rule map_upd_triv)
  then show ?case by simp
next
  case (Cons m ms)
  let ?s = "s\<lparr>heap := (heap s)(a \<mapsto> SetObj (insert_member m xs))\<rparr>"
  let ?F = "fold insert_member ms (insert_member m xs)"
  have 1: "set_add (Ref a) s m = ?s" using Cons.prems by (simp add: set_add_def)
  have "heap ?s a = Some (SetObj (insert_member m xs))" by simp
  then have 2: "fold (\<lambda>member s'. set_add (Ref a) s' member) ms ?s =
                  ?s\<lparr>heap := (heap ?s)(a \<mapsto> SetObj ?F)\<rparr>"
    by (rule Cons.IH)
  have 3: "?s\<lparr>heap := (heap ?s)(a \<mapsto> SetObj ?F)\<rparr> = s\<lparr>heap := (heap s)(a \<mapsto> SetObj ?F)\<rparr>"
    by simp
  show ?case unfolding fold_Cons comp_apply 1 2 3 ..
qed

lemma smembers_None_iff:
  "smembers s k = None \<longleftrightarrow>
     (map_of (data s) k = None \<or> (\<exists>d. map_of (data s) k = Some d \<and> \<not> is_Set s (evalue d)))"
  by (auto simp: smembers_def is_Set_def split: option.splits CacheData.splits obj.splits)

lemma sIsMember_smembers:
  "sIsMember s k m = (case smembers s k of None \<Rightarrow> False | Some xs \<Rightarrow> m \<in> set xs)"
  by (auto simp: sIsMember_def smembers_def split: option.splits CacheData.splits obj.splits)

lemma sAdd_fresh:
  assumes "smembers s k = None"
  shows "sAdd s k ms =
     (let (h, s') = (if TTL s > 0 then (Some (next_timer s), snd (setTimeout s k (TTL s * 1000)))
                     else (None, s))
      in s'\<lparr>heap := (heap s)(next_addr s \<mapsto> SetObj (fold insert_member ms [])),
            next_addr := Suc (next_addr s),
            data := AList.update k \<lparr>ttl = TTL s, evalue = Ref (next_addr s), timeout = h\<rparr> (data s)\<rparr>)"
proof -
  obtain h s' where hs: "(if TTL s > 0
                            then (let (h', s') = setTimeout s k (TTL s * 1000) in (Some h', s'))
                            else (None, s)) = (h, s')" by (cases "(if TTL s > 0
                            then (let (h', s') = setTimeout s k (TTL s * 1000) in (Some h', s'))
                            else (None, s))")
  then have fr: "heap s' = heap s" "next_addr s' = next_addr s" "data s' = data s" "TTL s' = TTL s"
    by (auto simp: setTimeout_def split: if_splits)
  let ?d = "\<lparr>ttl = TTL s, evalue = Ref (next_addr s), timeout = h\<rparr>"
  let ?s1 = "s'\<lparr>heap := (heap s')(next_addr s' \<mapsto> SetObj []), next_addr := Suc (next_addr s'),
                data := AList.update k ?d (data s')\<rparr>"
  have "sAdd s k ms = fold (\<lambda>member s'. set_add (Ref (next_addr s)) s' member) ms ?s1"
    using assms hs fr unfolding smembers_None_iff
    by (auto simp: sAdd_def Let_def new_obj_def)
  also have "\<dots> = ?s1\<lparr>heap := (heap ?s1)(next_addr s \<mapsto> SetObj (fold insert_member ms []))\<rparr>"
    by (rule fold_set_add) (simp add: fr)
  finally show ?thesis using hs fr by (auto simp: Let_def setTimeout_def split: if_splits)
qed

lemma sAdd_existing:
  assumes "map_of (data s) k = Some d" and "evalue d = Ref a" and "heap s a = Some (SetObj xs)"
  shows "sAdd s k ms = s\<lparr>heap := (heap s)(a \<mapsto> SetObj (fold insert_member ms xs))\<rparr>"
proof -
  have "is_Set s (evalue d)" using assms by (simp add: is_Set_def)
  then have "sAdd s k ms = fold (\<lambda>member s'. set_add (Ref a) s' member) ms s"
    using assms by (simp add: sAdd_def Let_def)
  then show ?thesis by (simp add: fold_set_add [OF assms(3)])
qed

lemma smembers_sAdd:
  "smembers (sAdd s k ms) k =
     Some (fold insert_member ms (case smembers s k of None \<Rightarrow> [] | Some xs \<Rightarrow> xs))"
proof (cases "smembers s k")
  case None
  have "smembers (sAdd s k ms) k = Some (fold insert_member ms [])"
    by (simp add: sAdd_fresh [OF None] smembers_def update_conv' setTimeout_def)
  then show ?thesis by (simp add: None)
next
  case (Some xs)
  then obtain d a where h: "map_of (data s) k = Some d" "evalue d = Ref a"
      "heap s a = Some (SetObj xs)"
    by (auto simp: smembers_def split: option.splits CacheData.splits obj.splits)
  have "smembers (sAdd s k ms) k = Some (fold insert_member ms xs)"
    using h by (simp add: sAdd_existing [OF h] smembers_def)
  then show ?thesis by (simp add: Some)
qed

text \<open>
  C2, as the code has it. \<^verbatim>\<open>sAdd\<close> inserts the members with the deduplication of a
  JavaScript Set (SameValueZero, which is equality of \<open>CacheData\<close>: strings, numbers and
  booleans by value, objects by identity): afterwards the Set at the key holds its
  earlier members and the given ones, each in one slot. \<^verbatim>\<open>sIsMember\<close> is membership
  among these slots under the same equality, and false on an absent key and on a value
  that is not a Set.
\<close>

theorem sAdd_same_value_zero:
  "(sIsMember (sAdd s k ms) k m \<longleftrightarrow> m \<in> set ms \<or> sIsMember s k m)
   \<and> sIsMember s k m = (case smembers s k of None \<Rightarrow> False | Some xs \<Rightarrow> m \<in> set xs)
   \<and> (\<exists>ys. smembers (sAdd s k ms) k = Some ys
         \<and> set ys = set ms \<union> (case smembers s k of None \<Rightarrow> {} | Some xs \<Rightarrow> set xs)
         \<and> ((case smembers s k of None \<Rightarrow> True | Some xs \<Rightarrow> distinct xs) \<longrightarrow> distinct ys))
   \<and> (map_of (data s) k = None \<longrightarrow> \<not> sIsMember s k m)
   \<and> (map_of (data s) k = Some d \<and> \<not> is_Set s (evalue d) \<longrightarrow> \<not> sIsMember s k m)"
proof (intro conjI impI; (elim conjE)?)
  show "sIsMember (sAdd s k ms) k m \<longleftrightarrow> m \<in> set ms \<or> sIsMember s k m"
    by (auto simp: sIsMember_smembers smembers_sAdd set_fold_insert_member split: option.splits)
  show "sIsMember s k m = (case smembers s k of None \<Rightarrow> False | Some xs \<Rightarrow> m \<in> set xs)"
    by (rule sIsMember_smembers)
  show "\<exists>ys. smembers (sAdd s k ms) k = Some ys
         \<and> set ys = set ms \<union> (case smembers s k of None \<Rightarrow> {} | Some xs \<Rightarrow> set xs)
         \<and> ((case smembers s k of None \<Rightarrow> True | Some xs \<Rightarrow> distinct xs) \<longrightarrow> distinct ys)"
    by (auto simp: smembers_sAdd set_fold_insert_member distinct_fold_insert_member
        split: option.splits)
  show "map_of (data s) k = None \<Longrightarrow> \<not> sIsMember s k m"
    by (simp add: sIsMember_def)
  show "map_of (data s) k = Some d \<Longrightarrow> \<not> is_Set s (evalue d) \<Longrightarrow> \<not> sIsMember s k m"
    by (auto simp: sIsMember_def is_Set_def split: CacheData.splits option.splits obj.splits)
qed

theorem sAdd_same_value_zero_witness:
  "smembers (sAdd (constructor None) ''s'' [Num 1, Num 1, Num 2]) ''s'' = Some [Num 1, Num 2]
   \<and> sIsMember (sAdd (constructor None) ''s'' [Num 1, Num 1, Num 2]) ''s'' (Num 1)
   \<and> \<not> sIsMember (sAdd (constructor None) ''s'' [Num 1, Num 1, Num 2]) ''s'' (Num 3)
   \<and> \<not> sIsMember (constructor None) ''s'' (Num 1)
   \<and> get ex_list ''k'' = Some (Str ''v'') \<and> \<not> sIsMember ex_list ''k'' (Str ''v'')
   \<and> smembers (sAdd ex_arrays ''s'' [Ref 0, Ref 0, Str ''a'', Str ''a'']) ''s''
       = Some [Ref 0, Str ''a'']"
  using sAdd_same_value_zero [where s = "constructor None" and k = "''s''"
      and ms = "[Num 1, Num 1, Num 2]" and m = "Num 1"]
    sAdd_same_value_zero [where s = "constructor None" and k = "''s''"
      and ms = "[Num 1, Num 1, Num 2]" and m = "Num 3"]
    sAdd_same_value_zero [where s = ex_list and k = "''k''" and ms = "[]" and m = "Str ''v''"
      and d = "\<lparr>ttl = 0, evalue = Str ''v'', timeout = None\<rparr>"]
    sAdd_same_value_zero [where s = ex_arrays and k = "''s''"
      and ms = "[Ref 0, Ref 0, Str ''a'', Str ''a'']" and m = "Ref 0"]
  by (simp add: ex_list_def ex_arrays_def run_defs)

text \<open>
  C2, as stated, fails on objects. The host's arrays at references 0, 1 and 2 are three
  arrays \<^verbatim>\<open>[1]\<close>, deep-equal to one another. \<^verbatim>\<open>sAdd("s", [a0, a1])\<close> fills two slots,
  and \<^verbatim>\<open>sIsMember("s", a2)\<close> is false.
\<close>

theorem sAdd_deep_dedup_counterexample:
  "deep_equal (heap (sAdd ex_arrays ''s'' [Ref 0, Ref 1])) (Suc 0) (Ref 0) (Ref 1)
   \<and> smembers (sAdd ex_arrays ''s'' [Ref 0, Ref 1]) ''s'' = Some [Ref 0, Ref 1]
   \<and> deep_equal (heap (sAdd ex_arrays ''s'' [Ref 0, Ref 1])) (Suc 0) (Ref 2) (Ref 0)
   \<and> \<not> sIsMember (sAdd ex_arrays ''s'' [Ref 0, Ref 1]) ''s'' (Ref 2)"
  by (simp add: ex_arrays_def run_defs)

section \<open>Scanning\<close>

text \<open>The source \<^verbatim>\<open>scan\<close> builds always compiles, to the expression of the pattern.\<close>

lemma escape_Nil [simp]: "escape [] = []"
  by (simp add: escape_def)

lemma escape_Cons:
  "escape (c # p) = (if special c then [CHR 0x5C, c] else [c]) @ escape p"
  by (simp add: escape_def)

lemma special_star: "special (CHR ''*'')"
  by (simp add: special_def)

lemma special_backslash: "special (CHR 0x5C)"
  by (simp add: special_def)

lemma special_dot: "special (CHR ''.'')"
  by (simp add: special_def)

lemma escape_no_star_first: "escape p = b # r \<Longrightarrow> b \<noteq> CHR ''*''"
  by (cases p) (auto simp: escape_Cons special_star split: if_splits)

lemma star_to_dotstar_step:
  "star_to_dotstar (a # escape p) = a # star_to_dotstar (escape p)"
proof (cases "escape p")
  case Nil
  then show ?thesis by simp
next
  case (Cons b r)
  then have "b \<noteq> CHR ''*''" by (rule escape_no_star_first)
  then show ?thesis by (simp add: Cons)
qed

lemma star_to_dotstar_escape_Cons:
  "star_to_dotstar (escape (c # p)) =
     (if c = CHR ''*'' then ''.*'' @ star_to_dotstar (escape p)
      else if special c then [CHR 0x5C, c] @ star_to_dotstar (escape p)
      else c # star_to_dotstar (escape p))"
  by (simp add: escape_Cons special_star star_to_dotstar_step)

lemma body_source: "body (star_to_dotstar (escape p) @ ''$'') = Some (atoms_of p)"
proof (induction p)
  case Nil
  show ?case by (simp add: atoms_of_def)
next
  case (Cons c p)
  obtain x r where r: "star_to_dotstar (escape p) @ ''$'' = x # r"
    by (cases "star_to_dotstar (escape p) @ ''$''") simp_all
  show ?case
  proof (cases "special c")
    case True
    then show ?thesis using Cons.IH
      by (simp add: star_to_dotstar_escape_Cons atoms_of_def)
  next
    case False
    then have "c \<noteq> CHR 0x5C" "c \<noteq> CHR ''.''" "c \<noteq> CHR ''*''"
      using special_backslash special_dot special_star by auto
    then show ?thesis using False Cons.IH r
      by (simp add: star_to_dotstar_escape_Cons atoms_of_def)
  qed
qed

lemma RegExp_regex_source: "RegExp (regex_source pattern) = Some (atoms_of pattern)"
  by (simp add: RegExp_def regex_source_def body_source)

lemma scan_test: "scan s pattern = filter (test (atoms_of pattern)) (map fst (data s))"
  by (simp add: scan_def RegExp_regex_source)

text \<open>
  On keys without line terminators the expression and the glob of the specification
  agree, and the expression never matches a key the glob does not.
\<close>

lemma test_glob:
  "\<forall>c \<in> set k. \<not> line_terminator c \<Longrightarrow> test (atoms_of p) k = glob p k"
proof (induction p k rule: glob.induct)
  case (1 k)
  show ?case by (simp add: atoms_of_def)
next
  case (2 c p k)
  show ?case
  proof (cases k)
    case Nil
    with 2 show ?thesis by (simp add: atoms_of_def)
  next
    case (Cons d k')
    with 2 show ?thesis by (simp add: atoms_of_def)
  qed
qed

lemma test_imp_glob: "test (atoms_of p) k \<Longrightarrow> glob p k"
proof (induction p k rule: glob.induct)
  case (1 k)
  then show ?case by (simp add: atoms_of_def)
next
  case (2 c p k)
  show ?case
  proof (cases k)
    case Nil
    with 2 show ?thesis by (auto simp add: atoms_of_def split: if_splits)
  next
    case (Cons d k')
    with 2 show ?thesis by (auto simp add: atoms_of_def split: if_splits)
  qed
qed

lemma scan_glob:
  assumes "\<forall>k \<in> fst ` set (data s). \<forall>c \<in> set k. \<not> line_terminator c"
  shows "scan s pattern = filter (glob pattern) (map fst (data s))"
  unfolding scan_test using assms
  by (intro filter_cong refl test_glob) auto

lemma scan_distinct: "distinct (map fst (data s)) \<Longrightarrow> distinct (scan s pattern)"
  by (simp add: scan_test)

lemma scan_users: "scan ex_users ''users:*'' = [''users:1'', ''users:2'']"
  by (simp add: scan_test atoms_of_def ex_users_def line_terminator_def run_defs)

text \<open>
  C7 fails on a key with a line terminator. The store holds the key \<^verbatim>\<open>"a\nb"\<close>, which the
  glob \<^verbatim>\<open>a*b\<close> of the specification matches; \<^verbatim>\<open>scan("a*b")\<close> returns no key, because
  the dot of the expression \<^verbatim>\<open>^a.*b$\<close> does not match the line feed.
\<close>

theorem scan_newline_key:
  "map fst (data ex_newline) = [''a'' @ [CHR 0x0A] @ ''b'']
   \<and> glob ''a*b'' (''a'' @ [CHR 0x0A] @ ''b'')
   \<and> regex_source ''a*b'' = ''^a.*b$''
   \<and> scan ex_newline ''a*b'' = []"
  by (simp add: scan_test atoms_of_def ex_newline_def line_terminator_def regex_source_def
      escape_def special_def run_defs)

section \<open>Expiration\<close>

text \<open>
  \<^verbatim>\<open>persist\<close> on a present key: the entry's timer leaves the queue and its ttl becomes
  0 (the entry keeps the cancelled handle); doing it again changes nothing.
\<close>

lemma persist_present:
  "map_of (data s) k = Some d \<Longrightarrow>
   persist s k = Inr (s\<lparr>timers := (case timeout d of None \<Rightarrow> timers s
                                   | Some h \<Rightarrow> filter (\<lambda>p. fst p \<noteq> h) (timers s)),
                      data := AList.update k (d\<lparr>ttl := 0\<rparr>) (data s)\<rparr>)"
  by (simp add: persist_def clearTimeout_def split: option.splits)

lemma persist_cancels:
  assumes "map_of (data s) k = Some d" and "persist s k = Inr s'"
  shows "getTTL s' k = 0 \<and> (\<forall>h. timeout d = Some h \<longrightarrow> h \<notin> fst ` set (timers s'))"
  using assms by (auto simp: persist_present getTTL_def update_conv')

lemma persist_idempotent:
  assumes "persist s k = Inr s'"
  shows "persist s' k = Inr s'"
proof -
  from assms obtain d where d: "map_of (data s) k = Some d"
    by (auto simp: persist_def split: option.splits)
  have s': "s' = s\<lparr>timers := (case timeout d of None \<Rightarrow> timers s
                                | Some h \<Rightarrow> filter (\<lambda>p. fst p \<noteq> h) (timers s)),
                   data := AList.update k (d\<lparr>ttl := 0\<rparr>) (data s)\<rparr>"
    using assms by (simp add: persist_present [OF d])
  have "map_of (data s') k = Some (d\<lparr>ttl := 0\<rparr>)" by (simp add: s' update_conv')
  from persist_present [OF this] show ?thesis
    by (cases "timeout d") (simp_all add: s')
qed

text \<open>
  \<^verbatim>\<open>persist\<close> cancels the timer of the entry's handle only: a timer that an earlier
  \<^verbatim>\<open>set\<close> left pending survives it and deletes the persisted key.
\<close>

lemma persist_stale_timer:
  "(case persist (set_key ex_armed ''a'' (Str ''v2'') (Some 2)) ''a'' of Inl e \<Rightarrow> False
    | Inr s' \<Rightarrow> getTTL s' ''a'' = 0 \<and> timers s' = [(0, ''a'', 1000)]
                \<and> get (fire s' 0) ''a'' = None)"
  by (simp add: ex_armed_def run_defs)

text \<open>\<^verbatim>\<open>setTTL\<close> cancels the entry's timer before it arms the new one.\<close>

lemma setTTL_cancels:
  assumes "map_of (data s) k = Some d" and "timeout d = Some h" and "h < next_timer s"
    and "setTTL s k t = Inr s'"
  shows "h \<notin> fst ` set (timers s')"
  using assms by (auto simp: setTTL_def clearTimeout_def handleTTL_cases Let_def split: if_splits)

text \<open>\<^verbatim>\<open>set\<close>, \<^verbatim>\<open>mSet\<close>, \<^verbatim>\<open>hSet\<close> and \<^verbatim>\<open>sAdd\<close> cancel nothing: every pending timer stays.\<close>

lemma set_key_keeps_timers: "set (timers s) \<subseteq> set (timers (set_key s k v ttl_arg))"
  by (auto simp: set_key_def handleTTL_cases Let_def)

text \<open>
  C1 fails for \<^verbatim>\<open>set\<close>, \<^verbatim>\<open>mSet\<close>, \<^verbatim>\<open>hSet\<close> and \<^verbatim>\<open>sAdd\<close>. After \<^verbatim>\<open>set("a", "v1", 1)\<close>
  timer 0 is pending. A following \<^verbatim>\<open>set("a", "v2", 0)\<close>, or \<^verbatim>\<open>mSet({a: "v2"})\<close>, leaves it
  pending, and when it fires the new entry is deleted; a following \<^verbatim>\<open>set("a", "v2", 2)\<close>
  leaves the key with two pending timers; \<^verbatim>\<open>hSet\<close> and \<^verbatim>\<open>sAdd\<close>, replacing the string,
  leave timer 0 pending too. \<^verbatim>\<open>setTTL\<close> on the same store does cancel timer 0.
\<close>

theorem set_leaves_stale_timer:
  "timers ex_armed = [(0, ''a'', 1000)]
   \<and> timers ex_overwritten = [(0, ''a'', 1000)]
   \<and> map_of (data ex_overwritten) ''a'' = Some \<lparr>ttl = 0, evalue = Str ''v2'', timeout = None\<rparr>
   \<and> get (fire ex_overwritten 0) ''a'' = None
   \<and> timers (set_key ex_armed ''a'' (Str ''v2'') (Some 2)) = [(0, ''a'', 1000), (1, ''a'', 2000)]
   \<and> timers (mSet ex_armed [(''a'', Str ''v2'')]) = [(0, ''a'', 1000)]
   \<and> get (mSet ex_armed [(''a'', Str ''v2'')]) ''a'' = Some (Str ''v2'')
   \<and> get (fire (mSet ex_armed [(''a'', Str ''v2'')]) 0) ''a'' = None
   \<and> timers (hSet ex_armed ''a'' [(''x'', Num 1)] None) = [(0, ''a'', 1000)]
   \<and> timers (sAdd ex_armed ''a'' [Num 1]) = [(0, ''a'', 1000)]
   \<and> (case setTTL ex_armed ''a'' 0 of Inl e \<Rightarrow> False | Inr s' \<Rightarrow> timers s' = [])"
  by (simp add: ex_overwritten_def ex_armed_def run_defs)

text \<open>
  C8 fails on the error. \<^verbatim>\<open>persist\<close> on an absent key throws an error whose message is
  \<^verbatim>\<open>"Invalid key"\<close>, which is not \<^verbatim>\<open>CacheErrors.InvalidKey\<close>, the message
  \<^verbatim>\<open>incrementBy\<close> throws on the same store; \<^verbatim>\<open>persist\<close> on a present key, once and twice, leaves ttl 0 and no
  pending timer.
\<close>

theorem persist_absent_message:
  "persist (constructor None) ''k'' = Inl (Error ''Invalid key'')
   \<and> Error ''Invalid key'' \<noteq> Error (message InvalidKey)
   \<and> incrementBy (constructor None) ''k'' 1 = Inl (Error (message InvalidKey))
   \<and> (case persist ex_armed ''a'' of Inl e \<Rightarrow> False
       | Inr s' \<Rightarrow> getTTL s' ''a'' = 0 \<and> timers s' = [] \<and> persist s' ''a'' = Inr s')"
  by (simp add: ex_armed_def run_defs)

end
